theory Spec2Isabelle
  imports Main "HOL-Library.Word"
begin

section \<open>Data model (the mongoose schemas of server.js)\<close>

text \<open>
  An ObjectId is modelled as a natural number, a Date as a natural number (milliseconds),
  and the buffer of an uploaded file as a list of bytes. String paths that a document
  instance may lack (\<open>undefined\<close> or \<open>null\<close> in JavaScript) are \<open>string option\<close>.

  Each route handler is modelled from the point where its middlewares have run:
  \<open>authenticateToken\<close> has put the token's payload in \<open>req.user\<close>, and
  \<open>upload.single('image')\<close> has put the file, if one was sent, in \<open>req.file\<close>. A text
  field of a request body is a string or absent; the credentials of register and login
  are strings. A route parameter \<open>:id\<close> is an ObjectId; a call to the record store that
  mongoose rejects for whatever reason (a lost connection, a value it cannot cast) is a
  rejection of that call, decided by the environment of the request.
\<close>

type_synonym objectId = nat
type_synonym date = nat
type_synonym buffer = "8 word list"

record user =
  u_id :: objectId
  u_username :: string
  u_email :: string
  u_password :: string
  u_createdAt :: date

datatype status = Open | Solved

record problem =
  p_id :: objectId
  p_title :: "string option"
  p_description :: "string option"
  p_location :: "string option"
  p_image :: "string option"
  p_postedBy :: objectId
  p_createdAt :: date
  p_status :: status

record solution =
  s_id :: objectId
  s_description :: "string option"
  s_problemId :: objectId
  s_postedBy :: objectId
  s_upvotes :: "objectId list"
  s_createdAt :: date

record comment =
  c_id :: objectId
  c_text :: "string option"
  c_solutionId :: objectId
  c_postedBy :: objectId
  c_createdAt :: date

section \<open>Errors, responses, environment and state\<close>

text \<open>
  Every rejected promise of server.js is a value of type \<open>error\<close>: a schema validation
  failure raised by \<open>save\<close>, a violation of a \<open>unique\<close> index, or a rejection by an
  external service with its message.
\<close>

datatype error = ValidationError | DuplicateKey | Rejected string

datatype collection = Users | Problems | Solutions | Comments

datatype store_call =
    FindOne collection
  | FindById collection
  | Save collection
  | Populate collection
  | FindByIdAndDelete collection

text \<open>
  The external calls a handler makes, in the order it makes them: the two Cloudinary
  calls, \<open>console.error\<close>, and the writes to the record store.
\<close>

datatype call =
    Upload buffer
  | Destroy string
  | Console_error error
  | Write collection objectId
  | Delete collection objectId

text \<open>The JSON bodies the handlers send; \<open>postedBy\<close> populated as \<open>{_id, username}\<close> or null.\<close>

datatype json =
    Message string
  | ServerError error
  | AuthJson string string objectId string string
  | ProblemJson problem "(objectId \<times> string) option"
  | SolutionJson solution "(objectId \<times> string) option"
  | CommentJson comment "(objectId \<times> string) option"
  | UpvoteJson nat bool

type_synonym response = "nat \<times> json"

text \<open>
  The environment of one request: the clock and the outcome of every call to a library
  or remote service (\<open>Inl\<close>, or \<open>Some\<close> for a call without result, is a rejection).
\<close>

record env =
  Date_now :: date
  bcrypt_hash :: "string \<Rightarrow> error + string"
  bcrypt_compare :: "string \<Rightarrow> string \<Rightarrow> error + bool"
  jwt_sign :: "objectId \<Rightarrow> string \<Rightarrow> string"
  upload_stream :: "buffer \<Rightarrow> error + string"
  uploader_destroy :: "string \<Rightarrow> error option"
  store_rejects :: "store_call \<Rightarrow> error option"

text \<open>
  The state: the four collections in insertion order, the generator of fresh ObjectIds
  (\<open>new Model(...)\<close> takes the next one), and the log of external calls made so far. Within
  a collection \<open>_id\<close> identifies a document: \<open>findById\<close> returns the document with the id,
  \<open>save\<close> of a fetched document replaces it, \<open>findByIdAndDelete\<close> removes it.
\<close>

record state =
  users :: "user list"
  problems :: "problem list"
  solutions :: "solution list"
  comments :: "comment list"
  next_id :: objectId
  calls :: "call list"

text \<open>The identity that \<open>authenticateToken\<close> stores in \<open>req.user\<close>.\<close>

record claims =
  userId :: objectId
  token_username :: string

text \<open>The text fields of the body of a create or update request on a Problem.\<close>

record problem_body =
  b_title :: "string option"
  b_description :: "string option"
  b_location :: "string option"

section \<open>JavaScript and mongoose primitives\<close>

text \<open>Truthiness of a string-or-undefined value: undefined, null and \<open>''\<close> are falsy.\<close>

definition truthy :: "string option \<Rightarrow> bool" where
  "truthy v = (case v of None \<Rightarrow> False | Some s \<Rightarrow> s \<noteq> [])"

text \<open>\<open>a || b\<close> on such values.\<close>

definition js_or :: "string option \<Rightarrow> string option \<Rightarrow> string option" where
  "js_or a b = (if truthy a then a else b)"

text \<open>\<open>required: true\<close> on a String path: the value is a non-empty string.\<close>

definition required :: "string option \<Rightarrow> bool" where
  "required v = (case v of None \<Rightarrow> False | Some s \<Rightarrow> s \<noteq> [])"

text \<open>\<open>s.split(c)\<close> for a one-character separator.\<close>

fun js_split :: "char \<Rightarrow> string \<Rightarrow> string list" where
  "js_split c [] = [[]]"
| "js_split c (x # xs) =
     (if x = c then [] # js_split c xs
      else (case js_split c xs of [] \<Rightarrow> [[x]] | w # ws \<Rightarrow> (x # w) # ws))"

text \<open>\<open>image.split('/').pop().split('.')[0]\<close>\<close>

definition publicId :: "string \<Rightarrow> string" where
  "publicId url = hd (js_split CHR ''.'' (last (js_split CHR ''/'' url)))"

text \<open>\<open>xs.indexOf(x)\<close>: the first index of \<open>x\<close>, or -1.\<close>

fun indexOf :: "'a list \<Rightarrow> 'a \<Rightarrow> int" where
  "indexOf [] x = - 1"
| "indexOf (y # ys) x =
     (if y = x then 0 else (let i = indexOf ys x in if i = - 1 then - 1 else i + 1))"

text \<open>\<open>xs.splice(i, 1)\<close> for an index \<open>i \<ge> 0\<close>.\<close>

definition splice1 :: "'a list \<Rightarrow> int \<Rightarrow> 'a list" where
  "splice1 xs i = take (nat i) xs @ drop (Suc (nat i)) xs"

text \<open>\<open>doc.populate('postedBy', 'username')\<close>\<close>

definition populate :: "user list \<Rightarrow> objectId \<Rightarrow> (objectId \<times> string) option" where
  "populate us i = map_option (\<lambda>u. (u_id u, u_username u)) (find (\<lambda>u. u_id u = i) us)"

definition server_error :: "error \<Rightarrow> response" where
  "server_error e = (500, ServerError e)"

section \<open>Asset store calls\<close>

text \<open>\<open>uploadToCloudinary(file)\<close>: resolves with the result's secure_url or rejects.\<close>

definition uploadToCloudinary :: "env \<Rightarrow> buffer \<Rightarrow> state \<Rightarrow> (error + string) \<times> state" where
  "uploadToCloudinary env file st =
     (upload_stream env file, st\<lparr>calls := calls st @ [Upload file]\<rparr>)"

text \<open>
  The \<open>try { destroy(`crowdsolve/${publicId}`) } catch { console.error }\<close> block of the
  update and delete handlers.
\<close>

definition destroy_image :: "env \<Rightarrow> string \<Rightarrow> state \<Rightarrow> state" where
  "destroy_image env url st =
     (let ref = ''crowdsolve/'' @ publicId url;
          st1 = st\<lparr>calls := calls st @ [Destroy ref]\<rparr>
      in case uploader_destroy env ref of
           None \<Rightarrow> st1
         | Some e \<Rightarrow> st1\<lparr>calls := calls st1 @ [Console_error e]\<rparr>)"

text \<open>\<open>if (problem.image) { try ... catch ... }\<close>: an absent or empty image skips the block.\<close>

definition destroy_if_image :: "env \<Rightarrow> string option \<Rightarrow> state \<Rightarrow> state" where
  "destroy_if_image env img st =
     (case img of
        None \<Rightarrow> st
      | Some url \<Rightarrow> if url = [] then st else destroy_image env url st)"

section \<open>Problem routes\<close>

text \<open>The stored Problem with a given \<open>_id\<close>, if there is one.\<close>

definition lookup_problem :: "state \<Rightarrow> objectId \<Rightarrow> problem option" where
  "lookup_problem st i = find (\<lambda>d. p_id d = i) (problems st)"

definition Problem_findById :: "env \<Rightarrow> state \<Rightarrow> objectId \<Rightarrow> error + problem option" where
  "Problem_findById env st i =
     (case store_rejects env (FindById Problems) of
        Some e \<Rightarrow> Inl e
      | None \<Rightarrow> Inr (lookup_problem st i))"

definition Problem_validate :: "problem \<Rightarrow> bool" where
  "Problem_validate p =
     (required (p_title p) \<and> required (p_description p) \<and> required (p_location p))"

text \<open>
  \<open>problem.save()\<close>: validation, then an insert for a new document and a replacement of
  the stored document with the same \<open>_id\<close> otherwise.
\<close>

definition Problem_save :: "env \<Rightarrow> bool \<Rightarrow> problem \<Rightarrow> state \<Rightarrow> error + state" where
  "Problem_save env isNew p st =
     (if \<not> Problem_validate p then Inl ValidationError
      else case store_rejects env (Save Problems) of
        Some e \<Rightarrow> Inl e
      | None \<Rightarrow>
          Inr (st\<lparr>problems :=
                    (if isNew then problems st @ [p]
                     else map (\<lambda>d. if p_id d = p_id p then p else d) (problems st)),
                  calls := calls st @ [Write Problems (p_id p)]\<rparr>))"

definition Problem_populate :: "env \<Rightarrow> state \<Rightarrow> problem \<Rightarrow> error + json" where
  "Problem_populate env st p =
     (case store_rejects env (Populate Problems) of
        Some e \<Rightarrow> Inl e
      | None \<Rightarrow> Inr (ProblemJson p (populate (users st) (p_postedBy p))))"

text \<open>The tail shared by create and update: save, populate, respond with \<open>code\<close>.\<close>

definition save_and_respond ::
    "env \<Rightarrow> nat \<Rightarrow> bool \<Rightarrow> problem \<Rightarrow> state \<Rightarrow> response \<times> state" where
  "save_and_respond env code isNew p st =
     (case Problem_save env isNew p st of
        Inl e \<Rightarrow> (server_error e, st)
      | Inr st1 \<Rightarrow>
          (case Problem_populate env st1 p of
             Inl e \<Rightarrow> (server_error e, st1)
           | Inr j \<Rightarrow> ((code, j), st1)))"

text \<open>\<open>POST /api/problems\<close>, after \<open>authenticateToken\<close> and \<open>upload.single('image')\<close>.\<close>

definition post_problem ::
    "env \<Rightarrow> claims \<Rightarrow> problem_body \<Rightarrow> buffer option \<Rightarrow> state \<Rightarrow> response \<times> state" where
  "post_problem env user body file st =
     (let (uploaded, st1) =
            (case file of
               None \<Rightarrow> (Inr None, st)
             | Some f \<Rightarrow>
                 (case uploadToCloudinary env f st of
                    (Inl e, st') \<Rightarrow> (Inl e, st')
                  | (Inr url, st') \<Rightarrow> (Inr (Some url), st')))
      in case uploaded of
           Inl e \<Rightarrow> (server_error e, st1)
         | Inr imageUrl \<Rightarrow>
             (let problem =
                    \<lparr>p_id = next_id st1, p_title = b_title body,
                     p_description = b_description body, p_location = b_location body,
                     p_image = imageUrl, p_postedBy = userId user,
                     p_createdAt = Date_now env, p_status = Open\<rparr>;
                  st2 = st1\<lparr>next_id := Suc (next_id st1)\<rparr>
              in save_and_respond env 201 True problem st2))"

text \<open>\<open>PUT /api/problems/:id\<close>, after the same two middlewares.\<close>

definition put_problem ::
    "env \<Rightarrow> claims \<Rightarrow> objectId \<Rightarrow> problem_body \<Rightarrow> buffer option \<Rightarrow> state
      \<Rightarrow> response \<times> state" where
  "put_problem env user i body file st =
     (case Problem_findById env st i of
        Inl e \<Rightarrow> (server_error e, st)
      | Inr None \<Rightarrow> ((404, Message ''Problem not found''), st)
      | Inr (Some found) \<Rightarrow>
          if p_postedBy found \<noteq> userId user
          then ((403, Message ''Not authorized to edit this problem''), st)
          else
            (let problem = found\<lparr>p_title := js_or (b_title body) (p_title found),
                                  p_description := js_or (b_description body) (p_description found),
                                  p_location := js_or (b_location body) (p_location found)\<rparr>
             in case file of
                  None \<Rightarrow> save_and_respond env 200 False problem st
                | Some f \<Rightarrow>
                    (let st1 = destroy_if_image env (p_image problem) st
                     in case uploadToCloudinary env f st1 of
                          (Inl e, st2) \<Rightarrow> (server_error e, st2)
                        | (Inr url, st2) \<Rightarrow>
                            save_and_respond env 200 False (problem\<lparr>p_image := Some url\<rparr>) st2)))"

text \<open>\<open>DELETE /api/problems/:id\<close>, after \<open>authenticateToken\<close>.\<close>

definition delete_problem :: "env \<Rightarrow> claims \<Rightarrow> objectId \<Rightarrow> state \<Rightarrow> response \<times> state" where
  "delete_problem env user i st =
     (case Problem_findById env st i of
        Inl e \<Rightarrow> (server_error e, st)
      | Inr None \<Rightarrow> ((404, Message ''Problem not found''), st)
      | Inr (Some problem) \<Rightarrow>
          if p_postedBy problem \<noteq> userId user
          then ((403, Message ''Not authorized to delete this problem''), st)
          else
            (let st1 = destroy_if_image env (p_image problem) st
             in case store_rejects env (FindByIdAndDelete Problems) of
                  Some e \<Rightarrow> (server_error e, st1)
                | None \<Rightarrow>
                    ((200, Message ''Problem deleted successfully''),
                     st1\<lparr>problems := filter (\<lambda>d. p_id d \<noteq> i) (problems st1),
                         calls := calls st1 @ [Delete Problems i]\<rparr>)))"

section \<open>Auth routes\<close>

definition User_validate :: "user \<Rightarrow> bool" where
  "User_validate u = (u_username u \<noteq> [] \<and> u_email u \<noteq> [] \<and> u_password u \<noteq> [])"

text \<open>\<open>user.save()\<close> of a new user; \<open>username\<close> and \<open>email\<close> carry a unique index.\<close>

definition User_save :: "env \<Rightarrow> user \<Rightarrow> state \<Rightarrow> error + state" where
  "User_save env u st =
     (if \<not> User_validate u then Inl ValidationError
      else case store_rejects env (Save Users) of
        Some e \<Rightarrow> Inl e
      | None \<Rightarrow>
          if list_ex (\<lambda>d. u_username d = u_username u \<or> u_email d = u_email u) (users st)
          then Inl DuplicateKey
          else Inr (st\<lparr>users := users st @ [u],
                       calls := calls st @ [Write Users (u_id u)]\<rparr>))"

text \<open>\<open>POST /api/auth/register\<close>\<close>

definition register :: "env \<Rightarrow> string \<Rightarrow> string \<Rightarrow> string \<Rightarrow> state \<Rightarrow> response \<times> state" where
  "register env username email password st =
     (case store_rejects env (FindOne Users) of
        Some e \<Rightarrow> (server_error e, st)
      | None \<Rightarrow>
          (case find (\<lambda>u. u_email u = email \<or> u_username u = username) (users st) of
             Some existingUser \<Rightarrow> ((400, Message ''User already exists''), st)
           | None \<Rightarrow>
               (case bcrypt_hash env password of
                  Inl e \<Rightarrow> (server_error e, st)
                | Inr hashedPassword \<Rightarrow>
                    (let user = \<lparr>u_id = next_id st, u_username = username, u_email = email,
                                 u_password = hashedPassword, u_createdAt = Date_now env\<rparr>;
                         st1 = st\<lparr>next_id := Suc (next_id st)\<rparr>
                     in case User_save env user st1 of
                          Inl e \<Rightarrow> (server_error e, st1)
                        | Inr st2 \<Rightarrow>
                            ((201, AuthJson ''User created successfully''
                                     (jwt_sign env (u_id user) (u_username user))
                                     (u_id user) (u_username user) (u_email user)),
                             st2)))))"

text \<open>\<open>POST /api/auth/login\<close>; it writes nothing, so it returns the response only.\<close>

definition login :: "env \<Rightarrow> string \<Rightarrow> string \<Rightarrow> state \<Rightarrow> response" where
  "login env email password st =
     (case store_rejects env (FindOne Users) of
        Some e \<Rightarrow> server_error e
      | None \<Rightarrow>
          (case find (\<lambda>u. u_email u = email) (users st) of
             None \<Rightarrow> (400, Message ''Invalid credentials'')
           | Some user \<Rightarrow>
               (case bcrypt_compare env password (u_password user) of
                  Inl e \<Rightarrow> server_error e
                | Inr isValidPassword \<Rightarrow>
                    if \<not> isValidPassword then (400, Message ''Invalid credentials'')
                    else (200, AuthJson ''Login successful''
                                 (jwt_sign env (u_id user) (u_username user))
                                 (u_id user) (u_username user) (u_email user)))))"

section \<open>Solution and comment routes\<close>

text \<open>The stored Solution with a given \<open>_id\<close>, if there is one.\<close>

definition lookup_solution :: "state \<Rightarrow> objectId \<Rightarrow> solution option" where
  "lookup_solution st i = find (\<lambda>d. s_id d = i) (solutions st)"

definition Solution_findById :: "env \<Rightarrow> state \<Rightarrow> objectId \<Rightarrow> error + solution option" where
  "Solution_findById env st i =
     (case store_rejects env (FindById Solutions) of
        Some e \<Rightarrow> Inl e
      | None \<Rightarrow> Inr (lookup_solution st i))"

definition Solution_save :: "env \<Rightarrow> bool \<Rightarrow> solution \<Rightarrow> state \<Rightarrow> error + state" where
  "Solution_save env isNew s st =
     (if \<not> required (s_description s) then Inl ValidationError
      else case store_rejects env (Save Solutions) of
        Some e \<Rightarrow> Inl e
      | None \<Rightarrow>
          Inr (st\<lparr>solutions :=
                    (if isNew then solutions st @ [s]
                     else map (\<lambda>d. if s_id d = s_id s then s else d) (solutions st)),
                  calls := calls st @ [Write Solutions (s_id s)]\<rparr>))"

text \<open>\<open>POST /api/problems/:id/solutions\<close>; \<open>upvotes\<close> takes the schema's default, [].\<close>

definition post_solution ::
    "env \<Rightarrow> claims \<Rightarrow> objectId \<Rightarrow> string option \<Rightarrow> state \<Rightarrow> response \<times> state" where
  "post_solution env user i description st =
     (let solution = \<lparr>s_id = next_id st, s_description = description, s_problemId = i,
                      s_postedBy = userId user, s_upvotes = [], s_createdAt = Date_now env\<rparr>;
          st1 = st\<lparr>next_id := Suc (next_id st)\<rparr>
      in case Solution_save env True solution st1 of
           Inl e \<Rightarrow> (server_error e, st1)
         | Inr st2 \<Rightarrow>
             (case store_rejects env (Populate Solutions) of
                Some e \<Rightarrow> (server_error e, st2)
              | None \<Rightarrow>
                  ((201, SolutionJson solution (populate (users st2) (s_postedBy solution))),
                   st2)))"

text \<open>\<open>POST /api/solutions/:id/upvote\<close>\<close>

definition upvote :: "env \<Rightarrow> claims \<Rightarrow> objectId \<Rightarrow> state \<Rightarrow> response \<times> state" where
  "upvote env user i st =
     (case Solution_findById env st i of
        Inl e \<Rightarrow> (server_error e, st)
      | Inr None \<Rightarrow> ((404, Message ''Solution not found''), st)
      | Inr (Some solution) \<Rightarrow>
          (let upvoteIndex = indexOf (s_upvotes solution) (userId user);
               upvotes = (if upvoteIndex > - 1
                          then splice1 (s_upvotes solution) upvoteIndex
                          else s_upvotes solution @ [userId user]);
               solution1 = solution\<lparr>s_upvotes := upvotes\<rparr>
           in case Solution_save env False solution1 st of
                Inl e \<Rightarrow> (server_error e, st)
              | Inr st1 \<Rightarrow>
                  ((200, UpvoteJson (length (s_upvotes solution1)) (upvoteIndex = - 1)), st1)))"

definition Comment_save :: "env \<Rightarrow> comment \<Rightarrow> state \<Rightarrow> error + state" where
  "Comment_save env c st =
     (if \<not> required (c_text c) then Inl ValidationError
      else case store_rejects env (Save Comments) of
        Some e \<Rightarrow> Inl e
      | None \<Rightarrow>
          Inr (st\<lparr>comments := comments st @ [c],
                  calls := calls st @ [Write Comments (c_id c)]\<rparr>))"

text \<open>\<open>POST /api/solutions/:id/comments\<close>\<close>

definition post_comment ::
    "env \<Rightarrow> claims \<Rightarrow> objectId \<Rightarrow> string option \<Rightarrow> state \<Rightarrow> response \<times> state" where
  "post_comment env user i text st =
     (let comment = \<lparr>c_id = next_id st, c_text = text, c_solutionId = i,
                     c_postedBy = userId user, c_createdAt = Date_now env\<rparr>;
          st1 = st\<lparr>next_id := Suc (next_id st)\<rparr>
      in case Comment_save env comment st1 of
           Inl e \<Rightarrow> (server_error e, st1)
         | Inr st2 \<Rightarrow>
             (case store_rejects env (Populate Comments) of
                Some e \<Rightarrow> (server_error e, st2)
              | None \<Rightarrow>
                  ((201, CommentJson comment (populate (users st2) (c_postedBy comment))),
                   st2)))"

section \<open>The states the API can reach\<close>

definition init_state :: state where
  "init_state = \<lparr>users = [], problems = [], solutions = [], comments = [],
                 next_id = 0, calls = []\<rparr>"

text \<open>
  One request to a route that writes, by any caller holding any token and under any
  behaviour of the environment. The GET routes and login leave the state as it is.
\<close>

inductive api_step :: "state \<Rightarrow> state \<Rightarrow> bool" where
  step_register: "api_step st (snd (register env username email password st))"
| step_post_problem: "api_step st (snd (post_problem env user body file st))"
| step_put_problem: "api_step st (snd (put_problem env user i body file st))"
| step_delete_problem: "api_step st (snd (delete_problem env user i st))"
| step_post_solution: "api_step st (snd (post_solution env user i description st))"
| step_upvote: "api_step st (snd (upvote env user i st))"
| step_post_comment: "api_step st (snd (post_comment env user i text st))"

inductive reachable :: "state \<Rightarrow> bool" where
  reachable_init: "reachable init_state"
| reachable_step: "reachable st \<Longrightarrow> api_step st st' \<Longrightarrow> reachable st'"

section \<open>What one request may do to the stored Problems\<close>

text \<open>
  \<open>kept p p'\<close>: \<open>p'\<close> is the document \<open>p\<close> with its status, owner and creation time intact.
  \<open>problems_change\<close>: the four ways a request leaves the collection (untouched, one fresh
  open document appended, one document replaced by a kept one, the documents with one id
  removed). \<open>problems_inv\<close>: every stored id was issued, is unique, and is open.
\<close>

definition kept :: "problem \<Rightarrow> problem \<Rightarrow> bool" where
  "kept p p' \<longleftrightarrow> p_id p' = p_id p \<and> p_status p' = p_status p \<and>
     p_postedBy p' = p_postedBy p \<and> p_createdAt p' = p_createdAt p"

definition problems_change :: "state \<Rightarrow> state \<Rightarrow> bool" where
  "problems_change st st' \<longleftrightarrow>
     next_id st \<le> next_id st' \<and>
     (problems st' = problems st \<or>
      (\<exists>p. problems st' = problems st @ [p] \<and> p_id p = next_id st \<and> p_status p = Open \<and>
           next_id st < next_id st') \<or>
      (\<exists>P Q. P \<in> set (problems st) \<and> kept P Q \<and>
           problems st' = map (\<lambda>d. if p_id d = p_id Q then Q else d) (problems st)) \<or>
      (\<exists>i. problems st' = filter (\<lambda>d. p_id d \<noteq> i) (problems st)))"

definition problems_inv :: "state \<Rightarrow> bool" where
  "problems_inv st \<longleftrightarrow>
     (\<forall>p\<in>set (problems st). p_id p < next_id st \<and> p_status p = Open) \<and>
     distinct (map p_id (problems st))"

text \<open>
  \<open>store_valid\<close>: every stored Problem and Solution passes the validation of its schema,
  and no Solution lists an upvoter twice. The steps of \<open>api_step\<close> are whole requests, so
  this is an invariant of sequential use only.
\<close>

definition store_valid :: "state \<Rightarrow> bool" where
  "store_valid st \<longleftrightarrow>
     (\<forall>p\<in>set (problems st). Problem_validate p) \<and>
     (\<forall>s\<in>set (solutions st). required (s_description s) \<and> distinct (s_upvotes s))"

section \<open>Sample environments, documents and tokens\<close>

definition env0 :: env where
  "env0 = \<lparr>Date_now = 1000,
            bcrypt_hash = (\<lambda>p. Inr (''$2a$10$'' @ p)),
            bcrypt_compare = (\<lambda>p h. Inr (h = ''$2a$10$'' @ p)),
            jwt_sign = (\<lambda>i n. ''jwt.'' @ n),
            upload_stream = (\<lambda>b. Inr ''https://c.example/v1/crowdsolve/new.png''),
            uploader_destroy = (\<lambda>r. None),
            store_rejects = (\<lambda>c. None)\<rparr>"

definition env_upload_fails :: env where
  "env_upload_fails = env0\<lparr>upload_stream := (\<lambda>b. Inl (Rejected ''upload timed out''))\<rparr>"

definition env_destroy_fails :: env where
  "env_destroy_fails = env0\<lparr>uploader_destroy := (\<lambda>r. Some (Rejected ''not found''))\<rparr>"

definition alice :: user where
  "alice = \<lparr>u_id = 0, u_username = ''alice'', u_email = ''alice@example.org'',
             u_password = ''$2a$10$secret'', u_createdAt = 1\<rparr>"

definition bob :: user where
  "bob = \<lparr>u_id = 1, u_username = ''bob'', u_email = ''bob@example.org'',
           u_password = ''$2a$10$hunter2'', u_createdAt = 2\<rparr>"

definition pothole :: problem where
  "pothole = \<lparr>p_id = 2, p_title = Some ''Pothole'', p_description = Some ''Deep hole'',
               p_location = Some ''Main St'',
               p_image = Some ''https://c.example/v1/crowdsolve/old.jpg'',
               p_postedBy = 0, p_createdAt = 3, p_status = Open\<rparr>"

definition fill_it :: solution where
  "fill_it = \<lparr>s_id = 3, s_description = Some ''Fill it'', s_problemId = 2, s_postedBy = 1,
               s_upvotes = [0], s_createdAt = 4\<rparr>"

definition state0 :: state where
  "state0 = \<lparr>users = [alice, bob], problems = [pothole], solutions = [fill_it],
              comments = [], next_id = 4, calls = []\<rparr>"

definition as_alice :: claims where
  "as_alice = \<lparr>userId = 0, token_username = ''alice''\<rparr>"

definition as_bob :: claims where
  "as_bob = \<lparr>userId = 1, token_username = ''bob''\<rparr>"

definition body1 :: problem_body where
  "body1 = \<lparr>b_title = Some ''Broken lamp'', b_description = Some ''Dark'',
            b_location = Some ''Elm St''\<rparr>"

definition body2 :: problem_body where
  "body2 = \<lparr>b_title = Some ''Lamp'', b_description = None, b_location = None\<rparr>"

definition lamp :: problem where
  "lamp = \<lparr>p_id = 0, p_title = Some ''Broken lamp'', p_description = Some ''Dark'',
            p_location = Some ''Elm St'', p_image = None, p_postedBy = 1, p_createdAt = 1000,
            p_status = Open\<rparr>"

text \<open>
  The sample store after two overlapping upvote requests by bob have both pushed his id:
  nothing in the schema keeps an id from being listed twice.
\<close>

definition state_dup :: state where
  "state_dup = state0\<lparr>solutions := [fill_it\<lparr>s_upvotes := [0, 1, 1]\<rparr>]\<rparr>"

lemmas samples = env0_def env_upload_fails_def env_destroy_fails_def alice_def bob_def
  pothole_def fill_it_def state0_def as_alice_def as_bob_def

section \<open>Facts about the primitives\<close>

text \<open>\<open>split\<close> never returns an empty array, so \<open>pop()\<close> and \<open>[0]\<close> in \<open>publicId\<close> are defined.\<close>

lemma js_split_nonempty: "js_split c s \<noteq> []"
  by (induction s) (auto split: list.splits)

lemma indexOf_ge: "- 1 \<le> indexOf xs x"
  by (induction xs) (auto simp: Let_def)

lemma indexOf_absent: "indexOf xs x = - 1 \<longleftrightarrow> x \<notin> set xs"
proof (induction xs)
  case Nil
  show ?case by simp
next
  case (Cons y ys)
  have "- 1 \<le> indexOf ys x" by (rule indexOf_ge)
  with Cons show ?case by (auto simp: Let_def)
qed

lemma splice1_indexOf: "x \<in> set xs \<Longrightarrow> splice1 xs (indexOf xs x) = remove1 x xs"
proof (induction xs)
  case Nil
  then show ?case by simp
next
  case (Cons y ys)
  show ?case
  proof (cases "y = x")
    case True
    then show ?thesis by (simp add: splice1_def)
  next
    case False
    with Cons.prems have mem: "x \<in> set ys" by simp
    then have ne: "indexOf ys x \<noteq> - 1" by (simp add: indexOf_absent)
    have ge: "0 \<le> indexOf ys x" using indexOf_ge [of ys x] ne by linarith
    have "splice1 ys (indexOf ys x) = remove1 x ys" using Cons.IH mem by simp
    with False ne ge show ?thesis
      by (simp add: splice1_def Let_def nat_add_distrib)
  qed
qed

lemma find_map_replace:
  "find (\<lambda>d. key d = i) xs = Some x \<Longrightarrow> key y = i \<Longrightarrow>
   find (\<lambda>d. key d = i) (map (\<lambda>d. if key d = i then y else d) xs) = Some y"
  by (induction xs) (auto split: if_splits)

lemma find_Some_key: "find (\<lambda>d. key d = i) xs = Some x \<Longrightarrow> key x = i \<and> x \<in> set xs"
  by (induction xs) (auto split: if_splits)

lemma remove1_still_member: "x \<in> set (remove1 x xs) \<longleftrightarrow> 2 \<le> count_list xs x"
proof (induction xs)
  case Nil
  show ?case by simp
next
  case (Cons y ys)
  show ?case
  proof (cases "y = x")
    case True
    have "x \<in> set ys \<longleftrightarrow> 1 \<le> count_list ys x"
      using count_list_0_iff [of ys x] by auto
    with True show ?thesis by simp
  next
    case False
    with Cons show ?thesis by simp
  qed
qed

lemma insert_remove1: "x \<in> set xs \<Longrightarrow> insert x (set (remove1 x xs)) = set xs"
  by (induction xs) auto

lemma toggle_twice:
  assumes "count_list ups u \<le> 1"
    and "t1 = (if u \<in> set ups then remove1 u ups else ups @ [u])"
    and "t2 = (if u \<in> set t1 then remove1 u t1 else t1 @ [u])"
  shows "set t2 = set ups \<and> length t2 = length ups"
proof (cases "u \<in> set ups")
  case True
  with assms have t1: "t1 = remove1 u ups" by simp
  have "u \<notin> set t1" using assms(1) by (simp add: t1 remove1_still_member)
  with assms t1 have t2: "t2 = remove1 u ups @ [u]" by simp
  have "set (remove1 u ups) \<union> {u} = set ups"
    using True by (simp add: insert_remove1)
  with True t2 show ?thesis
    by (auto simp: length_remove1 dest: length_pos_if_in_set)
next
  case False
  with assms have "t1 = ups @ [u]" by simp
  with assms False have "t2 = ups" by (simp add: remove1_append)
  then show ?thesis by simp
qed

lemma find_None_set: "find P xs = None \<longleftrightarrow> \<not> (\<exists>x\<in>set xs. P x)"
  by (induction xs) auto

lemma find_filter_other: "find (\<lambda>d. key d = i) (filter (\<lambda>d. key d \<noteq> i) xs) = None"
  by (induction xs) auto

lemma Problem_findById_Some:
  "Problem_findById env st i = Inr (Some P) \<Longrightarrow>
   lookup_problem st i = Some P \<and> p_id P = i \<and> P \<in> set (problems st)"
  using find_Some_key [of p_id i "problems st" P]
  by (auto simp: Problem_findById_def lookup_problem_def split: option.splits)

lemma js_or_cases:
  "js_or a b = (case a of None \<Rightarrow> b | Some t \<Rightarrow> if t = [] then b else Some t)"
  by (simp add: js_or_def truthy_def split: option.splits)

lemma required_js_or: "required b \<Longrightarrow> required (js_or a b)"
  by (auto simp: js_or_def truthy_def required_def split: option.splits)

lemma save_and_respond_update:
  assumes "lookup_problem st i = Some P" and "p_id Q = i" and "Problem_validate Q"
    and "store_rejects env (Save Problems) = None"
    and "store_rejects env (Populate Problems) = None"
  shows "fst (fst (save_and_respond env code False Q st)) = code \<and>
         lookup_problem (snd (save_and_respond env code False Q st)) i = Some Q"
  using assms find_map_replace [of p_id i "problems st" P Q]
  by (simp add: save_and_respond_def Problem_save_def Problem_populate_def lookup_problem_def)

section \<open>Update by a caller who is not the owner\<close>

text \<open>
  C1. When the Problem with the requested id is found and its \<open>postedBy\<close> differs from the
  caller's identity, the update answers 403 and returns the state it was given: no stored
  document is touched and no external call (asset store or otherwise) is logged. This
  holds whatever the body and whether or not image bytes are attached.
\<close>

theorem put_by_non_owner:
  assumes "Problem_findById env st i = Inr (Some P)"
    and "p_postedBy P \<noteq> userId user"
  shows "put_problem env user i body file st =
           ((403, Message ''Not authorized to edit this problem''), st)"
  using assms by (simp add: put_problem_def)

theorem put_by_non_owner_witness:
  "put_problem env0 as_bob 2 \<lparr>b_title = Some ''Mine'', b_description = None, b_location = None\<rparr>
     (Some [1, 2, 3]) state0 =
   ((403, Message ''Not authorized to edit this problem''), state0)"
proof -
  have f: "Problem_findById env0 state0 2 = Inr (Some pothole)"
    by (simp add: Problem_findById_def lookup_problem_def samples)
  have o: "p_postedBy pothole \<noteq> userId as_bob"
    by (simp add: samples)
  show ?thesis by (rule put_by_non_owner [OF f o])
qed

section \<open>Create with image bytes whose upload fails\<close>

text \<open>
  C2. On a create request with image bytes, the upload is the first external call the
  handler makes, so it precedes any write to the record store; and when the upload is
  rejected the handler answers 500 with that error and returns the state with only the
  upload logged: no Problem is persisted.
\<close>

theorem post_problem_upload_rejected:
  "(\<exists>rest. calls (snd (post_problem env user body (Some f) st)) = calls st @ Upload f # rest) \<and>
   (\<forall>e. upload_stream env f = Inl e \<longrightarrow>
      post_problem env user body (Some f) st =
        (server_error e, st\<lparr>calls := calls st @ [Upload f]\<rparr>))"
  by (auto simp: post_problem_def uploadToCloudinary_def save_and_respond_def Problem_save_def
        Problem_populate_def Let_def split: sum.splits option.splits prod.splits)

theorem post_problem_upload_rejected_witness:
  "post_problem env_upload_fails as_alice
     \<lparr>b_title = Some ''Broken lamp'', b_description = Some ''Dark'', b_location = Some ''Elm St''\<rparr>
     (Some [1, 2, 3]) state0 =
   ((500, ServerError (Rejected ''upload timed out'')), state0\<lparr>calls := [Upload [1, 2, 3]]\<rparr>) \<and>
   problems (snd (post_problem env_upload_fails as_alice
     \<lparr>b_title = Some ''Broken lamp'', b_description = Some ''Dark'', b_location = Some ''Elm St''\<rparr>
     (Some [1, 2, 3]) state0)) = [pothole]"
  using post_problem_upload_rejected [of env_upload_fails as_alice
     "\<lparr>b_title = Some ''Broken lamp'', b_description = Some ''Dark'', b_location = Some ''Elm St''\<rparr>"
     "[1, 2, 3]" state0]
  by (simp add: env_upload_fails_def env0_def state0_def server_error_def)

section \<open>The upvote toggle\<close>

text \<open>
  What the handler does when the Solution is found, passes validation and is written:
  \<open>indexOf\<close> and \<open>splice\<close> remove the first occurrence of the caller, \<open>push\<close> appends.
\<close>

lemma upvote_found:
  assumes f: "Solution_findById env st i = Inr (Some S)"
    and v: "required (s_description S)"
    and w: "store_rejects env (Save Solutions) = None"
    and t: "ups = (if userId user \<in> set (s_upvotes S)
                   then remove1 (userId user) (s_upvotes S)
                   else s_upvotes S @ [userId user])"
  shows "upvote env user i st =
      ((200, UpvoteJson (length ups) (userId user \<notin> set (s_upvotes S))),
       st\<lparr>solutions := map (\<lambda>d. if s_id d = i then S\<lparr>s_upvotes := ups\<rparr> else d) (solutions st),
          calls := calls st @ [Write Solutions i]\<rparr>)"
proof -
  have k: "s_id S = i"
    using f find_Some_key [of s_id i "solutions st" S]
    by (auto simp: Solution_findById_def lookup_solution_def split: option.splits)
  show ?thesis
  proof (cases "userId user \<in> set (s_upvotes S)")
    case True
    then have ne: "indexOf (s_upvotes S) (userId user) \<noteq> - 1" by (simp add: indexOf_absent)
    then have gt: "indexOf (s_upvotes S) (userId user) > - 1"
      using indexOf_ge [of "s_upvotes S" "userId user"] by linarith
    show ?thesis
      using f v w k t True ne gt
      by (simp add: upvote_def Solution_save_def Let_def splice1_indexOf)
  next
    case False
    then have e: "indexOf (s_upvotes S) (userId user) = - 1" by (simp add: indexOf_absent)
    show ?thesis
      using f v w k t False e
      by (simp add: upvote_def Solution_save_def Let_def)
  qed
qed

lemma upvote_found_lookup:
  assumes f: "store_rejects env (FindById Solutions) = None"
    and l: "lookup_solution st i = Some S"
    and v: "required (s_description S)"
    and w: "store_rejects env (Save Solutions) = None"
    and t: "ups = (if userId user \<in> set (s_upvotes S)
                   then remove1 (userId user) (s_upvotes S)
                   else s_upvotes S @ [userId user])"
  shows "fst (upvote env user i st) =
           (200, UpvoteJson (length ups) (userId user \<notin> set (s_upvotes S))) \<and>
         lookup_solution (snd (upvote env user i st)) i = Some (S\<lparr>s_upvotes := ups\<rparr>)"
proof -
  have g: "Solution_findById env st i = Inr (Some S)"
    using f l by (simp add: Solution_findById_def)
  have k: "s_id S = i"
    using l find_Some_key [of s_id i "solutions st" S] by (simp add: lookup_solution_def)
  show ?thesis
    using l k upvote_found [OF g v w t]
      find_map_replace [of s_id i "solutions st" S "S\<lparr>s_upvotes := ups\<rparr>"]
    by (simp add: lookup_solution_def)
qed

text \<open>
  C3, as stated, fails for a Solution that lists the caller more than once: \<open>splice\<close>
  removes one occurrence and \<open>hasUpvoted\<close> is computed from the index found before the
  change. Bob toggles on the sample Solution that lists him twice: the answer says
  \<open>hasUpvoted = false\<close>, and the stored list still contains him.
\<close>

theorem upvote_duplicate_counterexample:
  "lookup_solution state_dup 3 = Some (fill_it\<lparr>s_upvotes := [0, 1, 1]\<rparr>) \<and>
   fst (upvote env0 as_bob 3 state_dup) = (200, UpvoteJson 2 False) \<and>
   lookup_solution (snd (upvote env0 as_bob 3 state_dup)) 3 =
     Some (fill_it\<lparr>s_upvotes := [0, 1]\<rparr>) \<and>
   userId as_bob \<in> set (s_upvotes (fill_it\<lparr>s_upvotes := [0, 1]\<rparr>))"
  by (simp add: upvote_def Solution_findById_def Solution_save_def lookup_solution_def
        required_def splice1_def Let_def state_dup_def samples)

text \<open>
  C3, amended. When the store answers the lookup: if no Solution has the id, the handler
  answers 404 and returns the state unchanged. If Solution \<open>S\<close> has the id, has its
  description and the write is accepted, then one occurrence of the caller is removed from
  \<open>upvotes\<close> when he is present and he is appended when absent, the document is stored
  with the new list, and the answer is 200 with the length of the new list and a flag that
  says whether the caller was absent before. That flag equals the caller's membership in
  the new list exactly when the old list held him at most once (as every list does in a
  state reached by requests served one after the other, by \<open>reachable_store_valid\<close>).
\<close>

theorem upvote_toggle:
  assumes "store_rejects env (FindById Solutions) = None"
  shows "(lookup_solution st i = None \<longrightarrow>
            upvote env user i st = ((404, Message ''Solution not found''), st)) \<and>
         (\<forall>S. lookup_solution st i = Some S \<and> required (s_description S) \<and>
               store_rejects env (Save Solutions) = None \<longrightarrow>
            (let ups = (if userId user \<in> set (s_upvotes S)
                        then remove1 (userId user) (s_upvotes S)
                        else s_upvotes S @ [userId user])
             in fst (upvote env user i st) =
                  (200, UpvoteJson (length ups) (userId user \<notin> set (s_upvotes S))) \<and>
                lookup_solution (snd (upvote env user i st)) i = Some (S\<lparr>s_upvotes := ups\<rparr>) \<and>
                ((userId user \<in> set ups \<longleftrightarrow> userId user \<notin> set (s_upvotes S)) \<longleftrightarrow>
                 count_list (s_upvotes S) (userId user) \<le> 1)))"
proof (intro conjI impI allI)
  assume "lookup_solution st i = None"
  with assms show "upvote env user i st = ((404, Message ''Solution not found''), st)"
    by (simp add: upvote_def Solution_findById_def)
next
  fix S
  assume a: "lookup_solution st i = Some S \<and> required (s_description S) \<and>
             store_rejects env (Save Solutions) = None"
  let ?u = "userId user"
  define ups where "ups = (if ?u \<in> set (s_upvotes S) then remove1 ?u (s_upvotes S)
                           else s_upvotes S @ [?u])"
  have m: "(?u \<in> set ups \<longleftrightarrow> ?u \<notin> set (s_upvotes S)) \<longleftrightarrow> count_list (s_upvotes S) ?u \<le> 1"
  proof (cases "?u \<in> set (s_upvotes S)")
    case True
    then have "?u \<in> set ups \<longleftrightarrow> 2 \<le> count_list (s_upvotes S) ?u"
      by (simp add: ups_def remove1_still_member)
    with True show ?thesis by auto
  next
    case False
    then have "count_list (s_upvotes S) ?u = 0" by (simp add: count_list_0_iff)
    with False show ?thesis by (simp add: ups_def)
  qed
  have r: "fst (upvote env user i st) = (200, UpvoteJson (length ups) (?u \<notin> set (s_upvotes S))) \<and>
           lookup_solution (snd (upvote env user i st)) i = Some (S\<lparr>s_upvotes := ups\<rparr>)"
    using a upvote_found_lookup [OF assms _ _ _ ups_def] by blast
  show "let ups = (if ?u \<in> set (s_upvotes S) then remove1 ?u (s_upvotes S) else s_upvotes S @ [?u])
        in fst (upvote env user i st) = (200, UpvoteJson (length ups) (?u \<notin> set (s_upvotes S))) \<and>
           lookup_solution (snd (upvote env user i st)) i = Some (S\<lparr>s_upvotes := ups\<rparr>) \<and>
           ((?u \<in> set ups \<longleftrightarrow> ?u \<notin> set (s_upvotes S)) \<longleftrightarrow>
            count_list (s_upvotes S) ?u \<le> 1)"
    using r m unfolding Let_def ups_def [symmetric] by simp
qed

theorem upvote_toggle_witness:
  "upvote env0 as_bob 7 state0 = ((404, Message ''Solution not found''), state0) \<and>
   fst (upvote env0 as_bob 3 state0) = (200, UpvoteJson 2 True) \<and>
   lookup_solution (snd (upvote env0 as_bob 3 state0)) 3 = Some (fill_it\<lparr>s_upvotes := [0, 1]\<rparr>) \<and>
   fst (upvote env0 as_alice 3 state0) = (200, UpvoteJson 0 False) \<and>
   lookup_solution (snd (upvote env0 as_alice 3 state0)) 3 = Some (fill_it\<lparr>s_upvotes := []\<rparr>) \<and>
   count_list (s_upvotes fill_it) (userId as_alice) \<le> 1 \<and>
   userId as_alice \<notin> set (s_upvotes (fill_it\<lparr>s_upvotes := []\<rparr>))"
proof -
  have e: "store_rejects env0 (FindById Solutions) = None" by (simp add: env0_def)
  have n: "lookup_solution state0 7 = None"
    by (simp add: lookup_solution_def state0_def fill_it_def)
  have s: "lookup_solution state0 3 = Some fill_it \<and> required (s_description fill_it) \<and>
           store_rejects env0 (Save Solutions) = None"
    by (simp add: lookup_solution_def state0_def fill_it_def required_def env0_def)
  show ?thesis
    using upvote_toggle [OF e, of state0 7 as_bob] upvote_toggle [OF e, of state0 3 as_bob]
      upvote_toggle [OF e, of state0 3 as_alice] n s
    by (simp add: Let_def as_bob_def as_alice_def fill_it_def)
qed

section \<open>Two toggles by the same user\<close>

text \<open>
  C4, as stated, fails for a Solution that lists the user more than once: each toggle
  removes one occurrence. From the sample Solution that lists bob twice, two toggles by
  bob leave only alice: neither the set of upvoters nor the count is what it was.
\<close>

theorem upvote_twice_duplicate_counterexample:
  "lookup_solution state_dup 3 = Some (fill_it\<lparr>s_upvotes := [0, 1, 1]\<rparr>) \<and>
   lookup_solution (snd (upvote env0 as_bob 3 (snd (upvote env0 as_bob 3 state_dup)))) 3 =
     Some (fill_it\<lparr>s_upvotes := [0]\<rparr>) \<and>
   set (s_upvotes (fill_it\<lparr>s_upvotes := [0]\<rparr>)) \<noteq>
     set (s_upvotes (fill_it\<lparr>s_upvotes := [0, 1, 1]\<rparr>)) \<and>
   length (s_upvotes (fill_it\<lparr>s_upvotes := [0]\<rparr>)) \<noteq>
     length (s_upvotes (fill_it\<lparr>s_upvotes := [0, 1, 1]\<rparr>))"
  by (simp add: upvote_def Solution_findById_def Solution_save_def lookup_solution_def
        required_def splice1_def Let_def state_dup_def samples)

text \<open>
  C4, amended. For a stored Solution \<open>S\<close> that has its description and lists the user at
  most once, and two successive toggles by that user, both served by the store: afterwards
  the stored document is \<open>S\<close> with an upvotes list that has the same set of members and the
  same length as before the first toggle, and the second answer reports the original count
  and the original membership.
\<close>

theorem upvote_twice:
  assumes l: "lookup_solution st i = Some S"
    and v: "required (s_description S)"
    and d: "count_list (s_upvotes S) (userId user) \<le> 1"
    and e1: "store_rejects env1 (FindById Solutions) = None" "store_rejects env1 (Save Solutions) = None"
    and e2: "store_rejects env2 (FindById Solutions) = None" "store_rejects env2 (Save Solutions) = None"
  shows "\<exists>ups. lookup_solution (snd (upvote env2 user i (snd (upvote env1 user i st)))) i =
                 Some (S\<lparr>s_upvotes := ups\<rparr>) \<and>
               set ups = set (s_upvotes S) \<and> length ups = length (s_upvotes S) \<and>
               fst (upvote env2 user i (snd (upvote env1 user i st))) =
                 (200, UpvoteJson (length (s_upvotes S)) (userId user \<in> set (s_upvotes S)))"
proof -
  let ?u = "userId user"
  define t1 where "t1 = (if ?u \<in> set (s_upvotes S) then remove1 ?u (s_upvotes S)
                         else s_upvotes S @ [?u])"
  define S1 where "S1 = S\<lparr>s_upvotes := t1\<rparr>"
  define t2 where "t2 = (if ?u \<in> set (s_upvotes S1) then remove1 ?u (s_upvotes S1)
                         else s_upvotes S1 @ [?u])"
  define st1 where "st1 = snd (upvote env1 user i st)"
  have first: "lookup_solution st1 i = Some S1"
    using upvote_found_lookup [OF e1(1) l v e1(2) t1_def] by (simp add: st1_def S1_def)
  have v1: "required (s_description S1)" using v by (simp add: S1_def)
  have second: "fst (upvote env2 user i st1) = (200, UpvoteJson (length t2) (?u \<notin> set (s_upvotes S1))) \<and>
                lookup_solution (snd (upvote env2 user i st1)) i = Some (S1\<lparr>s_upvotes := t2\<rparr>)"
    by (rule upvote_found_lookup [OF e2(1) first v1 e2(2) t2_def])
  have t2': "t2 = (if ?u \<in> set t1 then remove1 ?u t1 else t1 @ [?u])"
    by (simp add: t2_def S1_def)
  have restored: "set t2 = set (s_upvotes S) \<and> length t2 = length (s_upvotes S)"
    by (rule toggle_twice [OF d t1_def t2'])
  have flip: "?u \<notin> set (s_upvotes S1) \<longleftrightarrow> ?u \<in> set (s_upvotes S)"
    using d by (auto simp: S1_def t1_def remove1_still_member)
  have stored: "lookup_solution (snd (upvote env2 user i st1)) i = Some (S\<lparr>s_upvotes := t2\<rparr>)"
    using second by (simp add: S1_def)
  have answer: "fst (upvote env2 user i st1) =
                  (200, UpvoteJson (length (s_upvotes S)) (?u \<in> set (s_upvotes S)))"
    using second restored flip by simp
  show ?thesis
    using stored restored answer unfolding st1_def by blast
qed

theorem upvote_twice_witness:
  "lookup_solution (snd (upvote env0 as_alice 3 (snd (upvote env0 as_alice 3 state0)))) 3 =
     Some fill_it \<and>
   fst (upvote env0 as_alice 3 (snd (upvote env0 as_alice 3 state0))) = (200, UpvoteJson 1 True) \<and>
   lookup_solution (snd (upvote env0 as_bob 3 (snd (upvote env0 as_bob 3 state0)))) 3 =
     Some fill_it \<and>
   fst (upvote env0 as_bob 3 (snd (upvote env0 as_bob 3 state0))) = (200, UpvoteJson 1 False)"
proof -
  have l: "lookup_solution state0 3 = Some fill_it"
    by (simp add: lookup_solution_def state0_def fill_it_def)
  have v: "required (s_description fill_it)" by (simp add: fill_it_def required_def)
  have da: "count_list (s_upvotes fill_it) (userId as_alice) \<le> 1"
    by (simp add: fill_it_def as_alice_def)
  have db: "count_list (s_upvotes fill_it) (userId as_bob) \<le> 1"
    by (simp add: fill_it_def as_bob_def)
  have e: "store_rejects env0 (FindById Solutions) = None" "store_rejects env0 (Save Solutions) = None"
    by (simp_all add: env0_def)
  have a: "\<exists>ups. lookup_solution (snd (upvote env0 as_alice 3 (snd (upvote env0 as_alice 3 state0)))) 3 =
                 Some (fill_it\<lparr>s_upvotes := ups\<rparr>) \<and>
               set ups = set (s_upvotes fill_it) \<and> length ups = length (s_upvotes fill_it) \<and>
               fst (upvote env0 as_alice 3 (snd (upvote env0 as_alice 3 state0))) =
                 (200, UpvoteJson (length (s_upvotes fill_it)) (userId as_alice \<in> set (s_upvotes fill_it)))"
    by (rule upvote_twice [OF l v da e e])
  have b: "\<exists>ups. lookup_solution (snd (upvote env0 as_bob 3 (snd (upvote env0 as_bob 3 state0)))) 3 =
                 Some (fill_it\<lparr>s_upvotes := ups\<rparr>) \<and>
               set ups = set (s_upvotes fill_it) \<and> length ups = length (s_upvotes fill_it) \<and>
               fst (upvote env0 as_bob 3 (snd (upvote env0 as_bob 3 state0))) =
                 (200, UpvoteJson (length (s_upvotes fill_it)) (userId as_bob \<in> set (s_upvotes fill_it)))"
    by (rule upvote_twice [OF l v db e e])
  have one: "\<And>ups::nat list. set ups = {0} \<Longrightarrow> length ups = Suc 0 \<Longrightarrow> ups = [0]"
    by (metis length_0_conv length_Suc_conv list.set_intros(1) singletonD)
  show ?thesis
    using a b one by (auto simp: fill_it_def as_alice_def as_bob_def)
qed

section \<open>Registration\<close>

text \<open>
  C5. When the store answers the lookup, registration answers 400 exactly when a stored
  user has the same email or the same username, and then with the message of the conflict
  and the state unchanged. It answers 201 exactly when there is no such user, the hashing
  primitive returns a non-empty hash, username and email are non-empty and the write is
  accepted; then the stored password is the value the hashing primitive returned for the
  password (the plaintext is passed to nothing else), the new User is appended, and the
  body carries the signed token for \<open>{userId, username}\<close> and the summary
  \<open>{id, username, email}\<close>.
\<close>

theorem register_conflict:
  assumes "store_rejects env (FindOne Users) = None"
  shows "(fst (fst (register env username email password st)) = 400 \<longleftrightarrow>
            (\<exists>u\<in>set (users st). u_email u = email \<or> u_username u = username)) \<and>
         (fst (fst (register env username email password st)) = 400 \<longrightarrow>
            register env username email password st = ((400, Message ''User already exists''), st)) \<and>
         (fst (fst (register env username email password st)) = 201 \<longleftrightarrow>
            \<not> (\<exists>u\<in>set (users st). u_email u = email \<or> u_username u = username) \<and>
            (\<exists>h. bcrypt_hash env password = Inr h \<and> h \<noteq> []) \<and>
            username \<noteq> [] \<and> email \<noteq> [] \<and> store_rejects env (Save Users) = None) \<and>
         (fst (fst (register env username email password st)) = 201 \<longrightarrow>
            (\<exists>h. bcrypt_hash env password = Inr h \<and>
                 register env username email password st =
                   ((201, AuthJson ''User created successfully''
                            (jwt_sign env (next_id st) username) (next_id st) username email),
                    st\<lparr>users := users st @
                                   [\<lparr>u_id = next_id st, u_username = username, u_email = email,
                                     u_password = h, u_createdAt = Date_now env\<rparr>],
                       next_id := Suc (next_id st),
                       calls := calls st @ [Write Users (next_id st)]\<rparr>)))"
proof (cases "find (\<lambda>u. u_email u = email \<or> u_username u = username) (users st)")
  case (Some existing)
  then have ex: "\<exists>u\<in>set (users st). u_email u = email \<or> u_username u = username"
    using find_None_set [of "\<lambda>u. u_email u = email \<or> u_username u = username" "users st"] by simp
  have "register env username email password st = ((400, Message ''User already exists''), st)"
    using assms Some by (simp add: register_def)
  with ex show ?thesis by simp
next
  case None
  then have nex: "\<not> (\<exists>u\<in>set (users st). u_email u = email \<or> u_username u = username)"
    by (simp add: find_None_set)
  then have dup: "\<not> list_ex (\<lambda>d. u_username d = username \<or> u_email d = email) (users st)"
    by (auto simp: list_ex_iff)
  show ?thesis
  proof (cases "bcrypt_hash env password")
    case (Inl e)
    then have "register env username email password st = (server_error e, st)"
      using assms None by (simp add: register_def)
    with nex Inl show ?thesis by (simp add: server_error_def)
  next
    case (Inr h)
    show ?thesis
      using assms None nex dup Inr
      by (auto simp: register_def User_save_def User_validate_def Let_def server_error_def
            split: option.splits)
  qed
qed

theorem register_conflict_witness:
  "register env0 ''carol'' ''alice@example.org'' ''pw'' state0 =
     ((400, Message ''User already exists''), state0) \<and>
   register env0 ''bob'' ''robert@example.org'' ''pw'' state0 =
     ((400, Message ''User already exists''), state0) \<and>
   register env0 ''carol'' ''carol@example.org'' ''pw'' state0 =
     ((201, AuthJson ''User created successfully'' ''jwt.carol'' 4 ''carol'' ''carol@example.org''),
      state0\<lparr>users := [alice, bob,
                        \<lparr>u_id = 4, u_username = ''carol'', u_email = ''carol@example.org'',
                          u_password = ''$2a$10$pw'', u_createdAt = 1000\<rparr>],
             next_id := 5, calls := [Write Users 4]\<rparr>)"
proof -
  have e: "store_rejects env0 (FindOne Users) = None" by (simp add: env0_def)
  have x: "\<exists>u\<in>set (users state0). u_email u = ''alice@example.org'' \<or> u_username u = ''carol''"
    by (simp add: state0_def alice_def)
  have y: "\<exists>u\<in>set (users state0). u_email u = ''robert@example.org'' \<or> u_username u = ''bob''"
    by (simp add: state0_def bob_def)
  have z: "\<not> (\<exists>u\<in>set (users state0). u_email u = ''carol@example.org'' \<or> u_username u = ''carol'') \<and>
           (\<exists>h. bcrypt_hash env0 ''pw'' = Inr h \<and> h \<noteq> []) \<and> ''carol'' \<noteq> [] \<and>
           ''carol@example.org'' \<noteq> [] \<and> store_rejects env0 (Save Users) = None"
    by (simp add: state0_def alice_def bob_def env0_def)
  have h: "bcrypt_hash env0 ''pw'' = Inr ''$2a$10$pw''" by (simp add: env0_def)
  have a: "register env0 ''carol'' ''alice@example.org'' ''pw'' state0 =
             ((400, Message ''User already exists''), state0)"
    using register_conflict [OF e, of "''carol''" "''alice@example.org''" "''pw''" state0] x by blast
  have b: "register env0 ''bob'' ''robert@example.org'' ''pw'' state0 =
             ((400, Message ''User already exists''), state0)"
    using register_conflict [OF e, of "''bob''" "''robert@example.org''" "''pw''" state0] y by blast
  have c: "\<exists>h. bcrypt_hash env0 ''pw'' = Inr h \<and>
             register env0 ''carol'' ''carol@example.org'' ''pw'' state0 =
             ((201, AuthJson ''User created successfully''
                      (jwt_sign env0 (next_id state0) ''carol'') (next_id state0) ''carol'' ''carol@example.org''),
              state0\<lparr>users := users state0 @
                                   [\<lparr>u_id = next_id state0, u_username = ''carol'', u_email = ''carol@example.org'',
                                     u_password = h, u_createdAt = Date_now env0\<rparr>],
                       next_id := Suc (next_id state0),
                       calls := calls state0 @ [Write Users (next_id state0)]\<rparr>)"
    using register_conflict [OF e, of "''carol''" "''carol@example.org''" "''pw''" state0] z by blast
  have c': "register env0 ''carol'' ''carol@example.org'' ''pw'' state0 =
     ((201, AuthJson ''User created successfully'' ''jwt.carol'' 4 ''carol'' ''carol@example.org''),
      state0\<lparr>users := [alice, bob,
                        \<lparr>u_id = 4, u_username = ''carol'', u_email = ''carol@example.org'',
                          u_password = ''$2a$10$pw'', u_createdAt = 1000\<rparr>],
             next_id := 5, calls := [Write Users 4]\<rparr>)"
    using c h by (auto simp: state0_def env0_def)
  from a b c' show ?thesis by blast
qed

section \<open>The two failures of login\<close>

text \<open>
  C6. A login whose email matches no stored user, and a login whose email matches a user
  but whose password the comparison primitive reports as not matching, get the same
  response: status 400 with the message \<open>Invalid credentials\<close>.
\<close>

theorem login_uniform_failure:
  assumes "store_rejects env1 (FindOne Users) = None"
    and "store_rejects env2 (FindOne Users) = None"
    and "find (\<lambda>u. u_email u = email1) (users st1) = None"
    and "find (\<lambda>u. u_email u = email2) (users st2) = Some known"
    and "bcrypt_compare env2 password2 (u_password known) = Inr False"
  shows "login env1 email1 password1 st1 = login env2 email2 password2 st2 \<and>
         login env1 email1 password1 st1 = (400, Message ''Invalid credentials'')"
  using assms by (simp add: login_def)

theorem login_uniform_failure_witness:
  "login env0 ''nobody@example.org'' ''secret'' state0 =
     login env0 ''alice@example.org'' ''guess'' state0 \<and>
   login env0 ''nobody@example.org'' ''secret'' state0 = (400, Message ''Invalid credentials'')"
proof -
  have e: "store_rejects env0 (FindOne Users) = None" by (simp add: env0_def)
  have n: "find (\<lambda>u. u_email u = ''nobody@example.org'') (users state0) = None"
    by (simp add: state0_def alice_def bob_def)
  have k: "find (\<lambda>u. u_email u = ''alice@example.org'') (users state0) = Some alice"
    by (simp add: state0_def alice_def bob_def)
  have w: "bcrypt_compare env0 ''guess'' (u_password alice) = Inr False"
    by (simp add: env0_def alice_def)
  show ?thesis by (rule login_uniform_failure [OF e e n k w])
qed

section \<open>The fields an update overwrites\<close>

text \<open>
  C7, as stated, fails for a field provided as the empty string: \<open>title || problem.title\<close>
  takes the stored title when the provided one is falsy. The owner updates the sample
  problem with title \<open>''\<close>: the answer is 200 and the stored title is still \<open>Pothole\<close>.
\<close>

theorem put_empty_title_counterexample:
  "b_title \<lparr>b_title = Some [], b_description = None, b_location = Some ''Elm St''\<rparr> = Some [] \<and>
   fst (fst (put_problem env0 as_alice 2
     \<lparr>b_title = Some [], b_description = None, b_location = Some ''Elm St''\<rparr> None state0)) = 200 \<and>
   lookup_problem (snd (put_problem env0 as_alice 2
     \<lparr>b_title = Some [], b_description = None, b_location = Some ''Elm St''\<rparr> None state0)) 2 =
     Some (pothole\<lparr>p_location := Some ''Elm St''\<rparr>) \<and>
   p_title (pothole\<lparr>p_location := Some ''Elm St''\<rparr>) = Some ''Pothole'' \<and>
   p_title (pothole\<lparr>p_location := Some ''Elm St''\<rparr>) \<noteq> Some []"
  by (simp add: put_problem_def Problem_findById_def lookup_problem_def save_and_respond_def
        Problem_save_def Problem_populate_def Problem_validate_def required_def js_or_def
        truthy_def Let_def samples)

text \<open>
  C7, amended. For an update by the owner of a stored Problem that the schema admits (as
  every Problem of a reachable state is, by \<open>reachable_store_valid\<close>), served by the store
  and, when image bytes are attached, by the upload: the answer is 200
  and in the stored document each of title, description and location has the provided
  value when that value is a non-empty string, and its old value when the field is omitted
  or provided as the empty string; the image is the uploaded reference when bytes are
  attached and the old one otherwise; every other field is as before.
\<close>

theorem put_problem_fields:
  assumes f: "Problem_findById env st i = Inr (Some P)"
    and o: "p_postedBy P = userId user"
    and v: "Problem_validate P"
    and s: "store_rejects env (Save Problems) = None"
    and p: "store_rejects env (Populate Problems) = None"
    and u: "case file of None \<Rightarrow> True | Some f \<Rightarrow> (\<exists>url. upload_stream env f = Inr url)"
  shows "fst (fst (put_problem env user i body file st)) = 200 \<and>
         lookup_problem (snd (put_problem env user i body file st)) i =
           Some (P\<lparr>p_title := (case b_title body of
                                 None \<Rightarrow> p_title P
                               | Some t \<Rightarrow> if t = [] then p_title P else Some t),
                   p_description := (case b_description body of
                                       None \<Rightarrow> p_description P
                                     | Some t \<Rightarrow> if t = [] then p_description P else Some t),
                   p_location := (case b_location body of
                                    None \<Rightarrow> p_location P
                                  | Some t \<Rightarrow> if t = [] then p_location P else Some t),
                   p_image := (case file of
                                 None \<Rightarrow> p_image P
                               | Some f \<Rightarrow> (case upload_stream env f of
                                             Inl e \<Rightarrow> p_image P
                                           | Inr url \<Rightarrow> Some url))\<rparr>)"
proof -
  define Q where "Q = P\<lparr>p_title := js_or (b_title body) (p_title P),
                        p_description := js_or (b_description body) (p_description P),
                        p_location := js_or (b_location body) (p_location P)\<rparr>"
  have l: "lookup_problem st i = Some P" and k: "p_id P = i"
    using Problem_findById_Some [OF f] by simp_all
  have vq: "Problem_validate Q"
    using v by (simp add: Q_def Problem_validate_def required_js_or)
  have kq: "p_id Q = i" using k by (simp add: Q_def)
  show ?thesis
  proof (cases "file")
    case None
    have "put_problem env user i body file st = save_and_respond env 200 False Q st"
      using f o None by (simp add: put_problem_def Q_def)
    with save_and_respond_update [OF l kq vq s p, of 200] None show ?thesis
      by (simp add: Q_def js_or_cases)
  next
    case (Some b)
    with u obtain url where url: "upload_stream env b = Inr url" by auto
    define st1 where "st1 = destroy_if_image env (p_image Q) st"
    define st2 where "st2 = st1\<lparr>calls := calls st1 @ [Upload b]\<rparr>"
    have pr: "problems st2 = problems st"
      by (simp add: st2_def st1_def destroy_if_image_def destroy_image_def Let_def
            split: option.splits)
    have l2: "lookup_problem st2 i = Some P"
      using l pr by (simp add: lookup_problem_def)
    have vq': "Problem_validate (Q\<lparr>p_image := Some url\<rparr>)"
      using vq by (simp add: Problem_validate_def)
    have kq': "p_id (Q\<lparr>p_image := Some url\<rparr>) = i" using kq by simp
    have "put_problem env user i body file st =
            save_and_respond env 200 False (Q\<lparr>p_image := Some url\<rparr>) st2"
      using f o Some url
      by (simp add: put_problem_def Q_def st1_def st2_def uploadToCloudinary_def Let_def)
    with save_and_respond_update [OF l2 kq' vq' s p, of 200] Some url show ?thesis
      by (simp add: Q_def js_or_cases)
  qed
qed

theorem put_problem_fields_witness:
  "fst (fst (put_problem env0 as_alice 2
     \<lparr>b_title = Some ''Sinkhole'', b_description = None, b_location = Some []\<rparr>
     (Some [7, 7]) state0)) = 200 \<and>
   lookup_problem (snd (put_problem env0 as_alice 2
     \<lparr>b_title = Some ''Sinkhole'', b_description = None, b_location = Some []\<rparr>
     (Some [7, 7]) state0)) 2 =
     Some (pothole\<lparr>p_title := Some ''Sinkhole'',
                   p_image := Some ''https://c.example/v1/crowdsolve/new.png''\<rparr>)"
proof -
  have f: "Problem_findById env0 state0 2 = Inr (Some pothole)"
    by (simp add: Problem_findById_def lookup_problem_def samples)
  have o: "p_postedBy pothole = userId as_alice" by (simp add: samples)
  have v: "Problem_validate pothole" by (simp add: Problem_validate_def required_def samples)
  have s: "store_rejects env0 (Save Problems) = None" by (simp add: env0_def)
  have p: "store_rejects env0 (Populate Problems) = None" by (simp add: env0_def)
  have u: "case Some [7, 7] of None \<Rightarrow> True | Some f \<Rightarrow> (\<exists>url. upload_stream env0 f = Inr url)"
    by (simp add: env0_def)
  show ?thesis
    using put_problem_fields [OF f o v s p u,
      of "\<lparr>b_title = Some ''Sinkhole'', b_description = None, b_location = Some []\<rparr>"]
    by (simp add: samples)
qed

section \<open>Deleting a Problem that has an image\<close>

text \<open>
  C8. For a delete by the owner of a stored Problem whose image is a non-empty reference,
  with the store serving the lookup and the removal: the handler logs exactly one
  \<open>destroy\<close> call, for the public id derived from that reference; when that call is
  rejected the error only goes to the console; and in either case the Problem is removed
  from the store and the answer is 200. Nothing is assumed about the outcome of
  \<open>destroy\<close>.
\<close>

theorem delete_problem_with_image:
  assumes f: "Problem_findById env st i = Inr (Some P)"
    and o: "p_postedBy P = userId user"
    and m: "p_image P = Some url" "url \<noteq> []"
    and d: "store_rejects env (FindByIdAndDelete Problems) = None"
  shows "fst (delete_problem env user i st) = (200, Message ''Problem deleted successfully'') \<and>
         lookup_problem (snd (delete_problem env user i st)) i = None \<and>
         problems (snd (delete_problem env user i st)) = filter (\<lambda>d. p_id d \<noteq> i) (problems st) \<and>
         calls (snd (delete_problem env user i st)) =
           calls st @ [Destroy (''crowdsolve/'' @ publicId url)] @
           (case uploader_destroy env (''crowdsolve/'' @ publicId url) of
              None \<Rightarrow> []
            | Some e \<Rightarrow> [Console_error e]) @
           [Delete Problems i]"
  using f o m d find_filter_other [of p_id i "problems st"]
  by (simp add: delete_problem_def destroy_if_image_def destroy_image_def lookup_problem_def
        Let_def split: option.splits)

theorem delete_problem_with_image_witness:
  "fst (delete_problem env_destroy_fails as_alice 2 state0) =
     (200, Message ''Problem deleted successfully'') \<and>
   lookup_problem (snd (delete_problem env_destroy_fails as_alice 2 state0)) 2 = None \<and>
   problems (snd (delete_problem env_destroy_fails as_alice 2 state0)) = [] \<and>
   calls (snd (delete_problem env_destroy_fails as_alice 2 state0)) =
     [Destroy ''crowdsolve/old'', Console_error (Rejected ''not found''), Delete Problems 2]"
proof -
  have f: "Problem_findById env_destroy_fails state0 2 = Inr (Some pothole)"
    by (simp add: Problem_findById_def lookup_problem_def samples)
  have o: "p_postedBy pothole = userId as_alice" by (simp add: samples)
  have m: "p_image pothole = Some ''https://c.example/v1/crowdsolve/old.jpg''"
    "''https://c.example/v1/crowdsolve/old.jpg'' \<noteq> []"
    by (simp_all add: samples)
  have d: "store_rejects env_destroy_fails (FindByIdAndDelete Problems) = None"
    by (simp add: samples)
  have q: "publicId ''https://c.example/v1/crowdsolve/old.jpg'' = ''old''"
    by (simp add: publicId_def)
  show ?thesis
    using delete_problem_with_image [OF f o m d] q
    by (simp add: samples)
qed

section \<open>Replacing the image of a Problem\<close>

text \<open>
  C9. For an update by the owner that carries image bytes, on a stored Problem whose image
  is a non-empty reference: the \<open>destroy\<close> call for the old reference is logged before the
  upload of the new bytes, whatever else happens; and when the upload is rejected the
  answer is 500, nothing was written, and the stored Problem is the old document, whose
  image is the reference that \<open>destroy\<close> was just called for.
\<close>

theorem put_problem_destroy_then_upload:
  assumes f: "Problem_findById env st i = Inr (Some P)"
    and o: "p_postedBy P = userId user"
    and m: "p_image P = Some old" "old \<noteq> []"
  shows "(\<exists>rest. calls (snd (put_problem env user i body (Some b) st)) =
            calls st @ [Destroy (''crowdsolve/'' @ publicId old)] @
            (case uploader_destroy env (''crowdsolve/'' @ publicId old) of
               None \<Rightarrow> []
             | Some e \<Rightarrow> [Console_error e]) @
            Upload b # rest) \<and>
         (\<forall>e. upload_stream env b = Inl e \<longrightarrow>
            fst (put_problem env user i body (Some b) st) = server_error e \<and>
            problems (snd (put_problem env user i body (Some b) st)) = problems st \<and>
            lookup_problem (snd (put_problem env user i body (Some b) st)) i = Some P \<and>
            calls (snd (put_problem env user i body (Some b) st)) =
              calls st @ [Destroy (''crowdsolve/'' @ publicId old)] @
              (case uploader_destroy env (''crowdsolve/'' @ publicId old) of
                 None \<Rightarrow> []
               | Some e \<Rightarrow> [Console_error e]) @
              [Upload b])"
proof -
  have l: "lookup_problem st i = Some P"
    using Problem_findById_Some [OF f] by simp
  show ?thesis
    using f o m l
    by (auto simp: put_problem_def destroy_if_image_def destroy_image_def uploadToCloudinary_def
          save_and_respond_def Problem_save_def Problem_populate_def lookup_problem_def Let_def
          split: option.splits sum.splits)
qed

theorem put_problem_destroy_then_upload_witness:
  "fst (put_problem env_upload_fails as_alice 2
     \<lparr>b_title = None, b_description = None, b_location = None\<rparr> (Some [9]) state0) =
     (500, ServerError (Rejected ''upload timed out'')) \<and>
   lookup_problem (snd (put_problem env_upload_fails as_alice 2
     \<lparr>b_title = None, b_description = None, b_location = None\<rparr> (Some [9]) state0)) 2 =
     Some pothole \<and>
   calls (snd (put_problem env_upload_fails as_alice 2
     \<lparr>b_title = None, b_description = None, b_location = None\<rparr> (Some [9]) state0)) =
     [Destroy ''crowdsolve/old'', Upload [9]]"
proof -
  have f: "Problem_findById env_upload_fails state0 2 = Inr (Some pothole)"
    by (simp add: Problem_findById_def lookup_problem_def samples)
  have o: "p_postedBy pothole = userId as_alice" by (simp add: samples)
  have m: "p_image pothole = Some ''https://c.example/v1/crowdsolve/old.jpg''"
    "''https://c.example/v1/crowdsolve/old.jpg'' \<noteq> []"
    by (simp_all add: samples)
  have q: "publicId ''https://c.example/v1/crowdsolve/old.jpg'' = ''old''"
    by (simp add: publicId_def)
  have u: "upload_stream env_upload_fails [9] = Inl (Rejected ''upload timed out'')"
    by (simp add: samples)
  show ?thesis
    using put_problem_destroy_then_upload [OF f o m,
      of "\<lparr>b_title = None, b_description = None, b_location = None\<rparr>" "[9]"] q u
    by (simp add: samples server_error_def)
qed

section \<open>Stored documents are valid in every reachable state\<close>

text \<open>
  The conditions that the theorems on the toggle and on the update put on the stored
  document hold for every document stored by requests that are served one after the
  other.
\<close>

lemma valid_register: "store_valid st \<Longrightarrow> store_valid (snd (register env username email password st))"
  by (auto simp: store_valid_def register_def User_save_def Let_def
        split: option.splits sum.splits)

lemma valid_post_comment: "store_valid st \<Longrightarrow> store_valid (snd (post_comment env user i text st))"
  by (auto simp: store_valid_def post_comment_def Comment_save_def Let_def
        split: option.splits sum.splits)

lemma valid_post_solution:
  "store_valid st \<Longrightarrow> store_valid (snd (post_solution env user i description st))"
  by (auto simp: store_valid_def post_solution_def Solution_save_def Let_def
        split: option.splits sum.splits if_splits)

lemma valid_delete_problem: "store_valid st \<Longrightarrow> store_valid (snd (delete_problem env user i st))"
  by (auto simp: store_valid_def delete_problem_def destroy_if_image_def destroy_image_def Let_def
        split: option.splits sum.splits if_splits)

lemma valid_post_problem:
  "store_valid st \<Longrightarrow> store_valid (snd (post_problem env user body bytes st))"
  by (auto simp: store_valid_def post_problem_def uploadToCloudinary_def save_and_respond_def
        Problem_save_def Problem_populate_def Let_def split: option.splits sum.splits if_splits)

lemma valid_save_and_respond:
  assumes "store_valid st"
  shows "store_valid (snd (save_and_respond env code False Q st))"
  using assms
  by (auto simp: store_valid_def save_and_respond_def Problem_save_def Problem_populate_def
        split: option.splits sum.splits if_splits)

lemma valid_destroy_if_image: "store_valid (destroy_if_image env img st) = store_valid st"
  by (simp add: store_valid_def destroy_if_image_def destroy_image_def Let_def
        split: option.splits)

lemma valid_put_problem:
  assumes "store_valid st"
  shows "store_valid (snd (put_problem env user i body bytes st))"
proof -
  have a: "\<And>Q. store_valid (snd (save_and_respond env 200 False Q st))"
    using assms by (rule valid_save_and_respond)
  have d: "\<And>img b. store_valid (destroy_if_image env img st
             \<lparr>calls := calls (destroy_if_image env img st) @ [Upload b]\<rparr>)"
    using assms valid_destroy_if_image [of env _ st] by (simp add: store_valid_def)
  have b: "\<And>Q img b. store_valid (snd (save_and_respond env 200 False Q
             (destroy_if_image env img st
                \<lparr>calls := calls (destroy_if_image env img st) @ [Upload b]\<rparr>)))"
    using d by (rule valid_save_and_respond)
  show ?thesis
    using assms a b d
    by (simp add: put_problem_def uploadToCloudinary_def Let_def
          split: option.splits sum.splits)
qed

lemma valid_upvote:
  assumes "store_valid st"
  shows "store_valid (snd (upvote env user i st))"
proof (cases "Solution_findById env st i")
  case (Inl e)
  with assms show ?thesis by (simp add: upvote_def)
next
  case (Inr found)
  show ?thesis
  proof (cases found)
    case None
    with Inr assms show ?thesis by (simp add: upvote_def)
  next
    case (Some S)
    with Inr have l: "lookup_solution st i = Some S"
      by (auto simp: Solution_findById_def split: option.splits)
    then have mem: "S \<in> set (solutions st)"
      using find_Some_key [of s_id i "solutions st" S] by (simp add: lookup_solution_def)
    with assms have ok: "required (s_description S)" "distinct (s_upvotes S)"
      by (simp_all add: store_valid_def)
    show ?thesis
    proof (cases "store_rejects env (Save Solutions)")
      case None
      define ups where "ups = (if userId user \<in> set (s_upvotes S)
                               then remove1 (userId user) (s_upvotes S)
                               else s_upvotes S @ [userId user])"
      have du: "distinct ups" using ok(2) by (simp add: ups_def)
      from Inr Some have f: "Solution_findById env st i = Inr (Some S)" by simp
      show ?thesis
        using assms ok(1) du
        unfolding upvote_found [OF f ok(1) None ups_def]
        by (auto simp: store_valid_def)
    next
      case (Some e)
      with Inr \<open>found = Some S\<close> assms show ?thesis
        by (simp add: upvote_def Solution_save_def Let_def)
    qed
  qed
qed

lemma api_step_valid: "api_step st st' \<Longrightarrow> store_valid st \<Longrightarrow> store_valid st'"
  by (induction rule: api_step.induct)
     (simp_all add: valid_register valid_post_problem valid_put_problem valid_delete_problem
        valid_post_solution valid_upvote valid_post_comment)

lemma reachable_store_valid: "reachable st \<Longrightarrow> store_valid st"
proof (induction rule: reachable.induct)
  case reachable_init
  show ?case by (simp add: store_valid_def init_state_def)
next
  case (reachable_step st st')
  then show ?case using api_step_valid by blast
qed

section \<open>Status, owner and creation time of a Problem\<close>

lemma change_register: "problems_change st (snd (register env username email password st))"
  by (auto simp: problems_change_def register_def User_save_def Let_def
        split: option.splits sum.splits)

lemma change_post_solution: "problems_change st (snd (post_solution env user i description st))"
  by (auto simp: problems_change_def post_solution_def Solution_save_def Let_def
        split: option.splits sum.splits)

lemma change_upvote: "problems_change st (snd (upvote env user i st))"
  by (auto simp: problems_change_def upvote_def Solution_save_def Let_def
        split: option.splits sum.splits)

lemma change_post_comment: "problems_change st (snd (post_comment env user i text st))"
  by (auto simp: problems_change_def post_comment_def Comment_save_def Let_def
        split: option.splits sum.splits)

lemma destroy_image_frame:
  "problems (destroy_if_image env img st) = problems st \<and>
   next_id (destroy_if_image env img st) = next_id st \<and>
   users (destroy_if_image env img st) = users st"
  by (simp add: destroy_if_image_def destroy_image_def Let_def split: option.splits)

lemma change_post_problem: "problems_change st (snd (post_problem env user body file st))"
  by (auto simp: problems_change_def post_problem_def uploadToCloudinary_def save_and_respond_def
        Problem_save_def Problem_populate_def Let_def split: option.splits sum.splits)

lemma change_delete_problem: "problems_change st (snd (delete_problem env user i st))"
proof -
  have "problems (snd (delete_problem env user i st)) = problems st \<or>
        problems (snd (delete_problem env user i st)) = filter (\<lambda>d. p_id d \<noteq> i) (problems st)"
    by (auto simp: delete_problem_def destroy_image_frame Let_def split: option.splits sum.splits)
  moreover have "next_id (snd (delete_problem env user i st)) = next_id st"
    by (auto simp: delete_problem_def destroy_image_frame Let_def split: option.splits sum.splits)
  ultimately show ?thesis by (auto simp: problems_change_def)
qed

lemma save_and_respond_old:
  "snd (save_and_respond env code False p st) = st \<or>
   problems (snd (save_and_respond env code False p st)) =
     map (\<lambda>d. if p_id d = p_id p then p else d) (problems st) \<and>
   next_id (snd (save_and_respond env code False p st)) = next_id st"
  by (auto simp: save_and_respond_def Problem_save_def Problem_populate_def
        split: option.splits sum.splits)

lemma change_via_update:
  assumes mem: "P \<in> set (problems st)" and k: "kept P Q"
    and fr: "problems st2 = problems st" "next_id st2 = next_id st"
  shows "problems_change st (snd (save_and_respond env code False Q st2))"
proof -
  from save_and_respond_old [of env code Q st2] show ?thesis
  proof
    assume "snd (save_and_respond env code False Q st2) = st2"
    with fr show ?thesis by (simp add: problems_change_def)
  next
    assume a: "problems (snd (save_and_respond env code False Q st2)) =
                 map (\<lambda>d. if p_id d = p_id Q then Q else d) (problems st2) \<and>
               next_id (snd (save_and_respond env code False Q st2)) = next_id st2"
    have "\<exists>P Q'. P \<in> set (problems st) \<and> kept P Q' \<and>
            problems (snd (save_and_respond env code False Q st2)) =
              map (\<lambda>d. if p_id d = p_id Q' then Q' else d) (problems st)"
      using mem k a fr by auto
    with a fr show ?thesis by (simp add: problems_change_def)
  qed
qed

lemma change_put_problem: "problems_change st (snd (put_problem env user i body file st))"
proof (cases "Problem_findById env st i")
  case (Inl e)
  then show ?thesis by (simp add: put_problem_def problems_change_def)
next
  case (Inr found)
  show ?thesis
  proof (cases found)
    case None
    with Inr show ?thesis by (simp add: put_problem_def problems_change_def)
  next
    case (Some P)
    with Inr have f: "Problem_findById env st i = Inr (Some P)" by simp
    have mem: "P \<in> set (problems st)" using Problem_findById_Some [OF f] by simp
    show ?thesis
    proof (cases "p_postedBy P \<noteq> userId user")
      case True
      with f show ?thesis by (simp add: put_problem_def problems_change_def)
    next
      case False
      define Q where "Q = P\<lparr>p_title := js_or (b_title body) (p_title P),
                            p_description := js_or (b_description body) (p_description P),
                            p_location := js_or (b_location body) (p_location P)\<rparr>"
      have kq: "kept P Q" by (simp add: kept_def Q_def)
      show ?thesis
      proof (cases "file")
        case None
        have "put_problem env user i body file st = save_and_respond env 200 False Q st"
          using f False None by (simp add: put_problem_def Q_def)
        with change_via_update [OF mem kq refl refl, of env 200] show ?thesis
          by simp
      next
        case (Some b)
        define st1 where "st1 = destroy_if_image env (p_image Q) st"
        define st2 where "st2 = st1\<lparr>calls := calls st1 @ [Upload b]\<rparr>"
        have fr: "problems st2 = problems st" "next_id st2 = next_id st"
          by (simp_all add: st2_def st1_def destroy_image_frame)
        show ?thesis
        proof (cases "upload_stream env b")
          case (Inl e)
          have "snd (put_problem env user i body file st) = st2"
            using f False Some Inl
            by (simp add: put_problem_def Q_def st1_def st2_def uploadToCloudinary_def Let_def)
          with fr show ?thesis by (simp add: problems_change_def)
        next
          case (Inr url)
          have kq': "kept P (Q\<lparr>p_image := Some url\<rparr>)" using kq by (simp add: kept_def)
          have "put_problem env user i body file st =
                  save_and_respond env 200 False (Q\<lparr>p_image := Some url\<rparr>) st2"
            using f False Some Inr
            by (simp add: put_problem_def Q_def st1_def st2_def uploadToCloudinary_def Let_def)
          with change_via_update [OF mem kq' fr, of env 200] show ?thesis
            by simp
        qed
      qed
    qed
  qed
qed

lemma api_step_change: "api_step st st' \<Longrightarrow> problems_change st st'"
  by (induction rule: api_step.induct)
     (simp_all add: change_register change_post_problem change_put_problem
        change_delete_problem change_post_solution change_upvote change_post_comment)

lemma inv_change:
  assumes "problems_inv st" and "problems_change st st'"
  shows "problems_inv st'"
proof -
  from assms(2) have le: "next_id st \<le> next_id st'" by (simp add: problems_change_def)
  from assms(2) consider
      (same) "problems st' = problems st"
    | (new) p where "problems st' = problems st @ [p]" "p_id p = next_id st" "p_status p = Open"
        "next_id st < next_id st'"
    | (upd) P Q where "P \<in> set (problems st)" "kept P Q"
        "problems st' = map (\<lambda>d. if p_id d = p_id Q then Q else d) (problems st)"
    | (del) i where "problems st' = filter (\<lambda>d. p_id d \<noteq> i) (problems st)"
    unfolding problems_change_def by blast
  then show ?thesis
  proof cases
    case same
    with assms(1) le show ?thesis by (auto simp: problems_inv_def)
  next
    case new
    with assms(1) le show ?thesis by (fastforce simp: problems_inv_def)
  next
    case upd
    have ids: "map p_id (problems st') = map p_id (problems st)"
      unfolding upd(3) by (induction "problems st") auto
    from upd assms(1) le show ?thesis
      unfolding problems_inv_def ids by (fastforce simp: kept_def)
  next
    case del
    with assms(1) le show ?thesis by (auto simp: problems_inv_def distinct_map_filter)
  qed
qed

lemma change_back:
  assumes "problems_change st st'" and "p' \<in> set (problems st')"
  shows "(\<exists>p\<in>set (problems st). kept p p') \<or> next_id st \<le> p_id p'"
proof -
  have refl: "\<And>q. kept q q" by (simp add: kept_def)
  from assms(1) consider
      (same) "problems st' = problems st"
    | (new) p where "problems st' = problems st @ [p]" "p_id p = next_id st"
    | (upd) P Q where "P \<in> set (problems st)" "kept P Q"
        "problems st' = map (\<lambda>d. if p_id d = p_id Q then Q else d) (problems st)"
    | (del) i where "problems st' = filter (\<lambda>d. p_id d \<noteq> i) (problems st)"
    unfolding problems_change_def by blast
  then show ?thesis
  proof cases
    case same
    with assms(2) refl show ?thesis by auto
  next
    case new
    with assms(2) refl show ?thesis by auto
  next
    case upd
    with assms(2) refl show ?thesis by (auto split: if_splits)
  next
    case del
    with assms(2) refl show ?thesis by auto
  qed
qed

lemma reachable_inv: "reachable st \<Longrightarrow> problems_inv st"
proof (induction rule: reachable.induct)
  case reachable_init
  show ?case by (simp add: problems_inv_def init_state_def)
next
  case (reachable_step st st')
  then show ?case using inv_change api_step_change by blast
qed

lemma kept_trans: "kept p q \<Longrightarrow> kept q r \<Longrightarrow> kept p r"
  by (simp add: kept_def)

lemma steps_frame:
  assumes "api_step\<^sup>*\<^sup>* st st'" and "problems_inv st"
  shows "problems_inv st' \<and> next_id st \<le> next_id st' \<and>
         (\<forall>p\<in>set (problems st). \<forall>p'\<in>set (problems st'). p_id p' = p_id p \<longrightarrow> kept p p')"
  using assms
proof (induction rule: rtranclp_induct)
  case base
  have "\<And>p p'. p \<in> set (problems st) \<Longrightarrow> p' \<in> set (problems st) \<Longrightarrow> p_id p' = p_id p \<Longrightarrow> p' = p"
    using base by (auto simp: problems_inv_def distinct_map inj_on_def)
  with base show ?case by (auto simp: kept_def)
next
  case (step y z)
  then have iy: "problems_inv y" and le: "next_id st \<le> next_id y"
    and fr: "\<forall>p\<in>set (problems st). \<forall>p'\<in>set (problems y). p_id p' = p_id p \<longrightarrow> kept p p'"
    by simp_all
  have ch: "problems_change y z" using step.hyps(2) by (rule api_step_change)
  have iz: "problems_inv z" using iy ch by (rule inv_change)
  have le': "next_id st \<le> next_id z" using le ch by (simp add: problems_change_def)
  have "kept p p'" if a: "p \<in> set (problems st)" "p' \<in> set (problems z)" "p_id p' = p_id p" for p p'
  proof -
    have small: "p_id p < next_id st" using step.prems a(1) by (simp add: problems_inv_def)
    from change_back [OF ch a(2)] show ?thesis
    proof
      assume "\<exists>q\<in>set (problems y). kept q p'"
      then obtain q where q: "q \<in> set (problems y)" "kept q p'" by blast
      then have "p_id q = p_id p" using a(3) by (simp add: kept_def)
      with fr a(1) q(1) have "kept p q" by simp
      then show ?thesis using q(2) by (rule kept_trans)
    next
      assume "next_id y \<le> p_id p'"
      with small le a(3) show ?thesis by simp
    qed
  qed
  with iz le' show ?case by blast
qed


lemma post_problem_created:
  assumes "p' \<in> set (problems (snd (post_problem env user body bytes st)))"
    and "p' \<notin> set (problems st)"
  shows "p_status p' = Open \<and> p_postedBy p' = userId user \<and> p_createdAt p' = Date_now env"
  using assms
  by (auto simp: post_problem_def uploadToCloudinary_def save_and_respond_def
        Problem_save_def Problem_populate_def Let_def split: option.splits sum.splits if_splits)

text \<open>
  C10. In every state the API can reach from the empty store, every stored Problem has
  status open. A Problem that a create request adds has status open, the caller as owner
  and the time of the request as creation time. And after any further sequence of
  requests, a stored Problem with the same id as one stored now has the same status, owner
  and creation time: no route changes them, so \<open>solved\<close> is never reached.
\<close>

theorem problems_stay_open:
  assumes "reachable st"
  shows "(\<forall>p\<in>set (problems st). p_status p = Open) \<and>
         (\<forall>env user body bytes. \<forall>p'\<in>set (problems (snd (post_problem env user body bytes st))).
            p' \<notin> set (problems st) \<longrightarrow>
            p_status p' = Open \<and> p_postedBy p' = userId user \<and> p_createdAt p' = Date_now env) \<and>
         (\<forall>st'. api_step\<^sup>*\<^sup>* st st' \<longrightarrow>
            (\<forall>p\<in>set (problems st). \<forall>p'\<in>set (problems st'). p_id p' = p_id p \<longrightarrow>
               p_status p' = p_status p \<and> p_postedBy p' = p_postedBy p \<and>
               p_createdAt p' = p_createdAt p))"
proof (intro conjI allI impI ballI)
  fix p
  assume "p \<in> set (problems st)"
  with reachable_inv [OF assms] show "p_status p = Open" by (simp add: problems_inv_def)
next
  fix env user body bytes p'
  assume a: "p' \<in> set (problems (snd (post_problem env user body bytes st)))"
    "p' \<notin> set (problems st)"
  from post_problem_created [OF a]
  show "p_status p' = Open" "p_postedBy p' = userId user" "p_createdAt p' = Date_now env"
    by simp_all
next
  fix st' p p'
  assume a: "api_step\<^sup>*\<^sup>* st st'" "p \<in> set (problems st)" "p' \<in> set (problems st')"
    "p_id p' = p_id p"
  from steps_frame [OF a(1) reachable_inv [OF assms]] a(2-4) have "kept p p'" by blast
  then show "p_status p' = p_status p" "p_postedBy p' = p_postedBy p"
    "p_createdAt p' = p_createdAt p"
    by (simp_all add: kept_def)
qed

theorem problems_stay_open_witness:
  "reachable (snd (post_problem env0 as_bob body1 None init_state)) \<and>
   problems (snd (post_problem env0 as_bob body1 None init_state)) = [lamp] \<and>
   problems (snd (put_problem env0 as_bob 0 body2 None
               (snd (post_problem env0 as_bob body1 None init_state)))) =
     [lamp\<lparr>p_title := Some ''Lamp''\<rparr>] \<and>
   p_status lamp = Open \<and> p_postedBy lamp = userId as_bob \<and> p_createdAt lamp = Date_now env0 \<and>
   p_status (lamp\<lparr>p_title := Some ''Lamp''\<rparr>) = p_status lamp \<and>
   p_postedBy (lamp\<lparr>p_title := Some ''Lamp''\<rparr>) = p_postedBy lamp \<and>
   p_createdAt (lamp\<lparr>p_title := Some ''Lamp''\<rparr>) = p_createdAt lamp"
proof -
  let ?st1 = "snd (post_problem env0 as_bob body1 None init_state)"
  let ?st2 = "snd (put_problem env0 as_bob 0 body2 None ?st1)"
  have r: "reachable ?st1"
    by (rule reachable_step [OF reachable_init step_post_problem])
  have s: "api_step\<^sup>*\<^sup>* ?st1 ?st2"
    by (rule r_into_rtranclp) (rule step_put_problem)
  have p1: "problems ?st1 = [lamp]"
    by (simp add: post_problem_def save_and_respond_def Problem_save_def Problem_populate_def
          Problem_validate_def required_def Let_def init_state_def body1_def lamp_def samples)
  have st1: "?st1 = \<lparr>users = [], problems = [lamp], solutions = [], comments = [],
                      next_id = 1, calls = [Write Problems 0]\<rparr>"
    by (simp add: post_problem_def save_and_respond_def Problem_save_def Problem_populate_def
          Problem_validate_def required_def Let_def init_state_def body1_def lamp_def samples)
  have p2: "problems ?st2 = [lamp\<lparr>p_title := Some ''Lamp''\<rparr>]"
    unfolding st1
    by (simp add: put_problem_def Problem_findById_def lookup_problem_def save_and_respond_def
          Problem_save_def Problem_populate_def Problem_validate_def required_def js_or_def
          truthy_def Let_def body2_def lamp_def samples)
  have m1: "lamp \<in> set (problems ?st1)" using p1 by simp
  have m2: "lamp\<lparr>p_title := Some ''Lamp''\<rparr> \<in> set (problems ?st2)" using p2 by simp
  have k: "p_id (lamp\<lparr>p_title := Some ''Lamp''\<rparr>) = p_id lamp" by simp
  from problems_stay_open [OF r] m1 have o: "p_status lamp = Open" by blast
  have m0: "lamp \<notin> set (problems init_state)" by (simp add: init_state_def)
  from problems_stay_open [OF reachable_init] m1 m0
  have c: "p_postedBy lamp = userId as_bob \<and> p_createdAt lamp = Date_now env0" by blast
  from problems_stay_open [OF r] s m1 m2 k
  have f: "p_status (lamp\<lparr>p_title := Some ''Lamp''\<rparr>) = p_status lamp \<and>
           p_postedBy (lamp\<lparr>p_title := Some ''Lamp''\<rparr>) = p_postedBy lamp \<and>
           p_createdAt (lamp\<lparr>p_title := Some ''Lamp''\<rparr>) = p_createdAt lamp"
    by blast
  from r p1 p2 o c f show ?thesis by blast
qed

end
